theory Spec2Isabelle
  imports Main "HOL-Library.Sublist" "HOL-Library.Word"
begin

section \<open>Go library functions used by main.go\<close>

text \<open>
  Go strings are byte sequences; they are modelled as \<open>string\<close> (a list of 8-bit
  characters). The library functions below are the ones \<open>main.go\<close> calls from
  \<open>strings\<close>, \<open>path/filepath\<close> and \<open>fmt\<close>, modelled after their documented behaviour
  on the arguments the program passes.
\<close>

text \<open>
  \<open>strings.ReplaceAll(s, old, new)\<close> for a non-empty \<open>old\<close>: the non-overlapping
  instances of \<open>old\<close> are replaced, scanning from the left. The program only calls it
  with the ten non-empty patterns of \<open>unsafe\<close>; an empty \<open>old\<close> is left unspecified.
\<close>

fun ReplaceAll :: "string \<Rightarrow> string \<Rightarrow> string \<Rightarrow> string" where
  "ReplaceAll [] (c # cs) new = []"
| "ReplaceAll (x # xs) (c # cs) new =
     (if prefix (c # cs) (x # xs)
      then new @ ReplaceAll (drop (length cs) xs) (c # cs) new
      else x # ReplaceAll xs (c # cs) new)"

text \<open>
  \<open>strings.Trim(s, cutset)\<close> for an ASCII cutset: all trailing, then all leading bytes
  contained in the cutset are removed.
\<close>

definition TrimRight :: "string \<Rightarrow> string \<Rightarrow> string" where
  "TrimRight s cutset = rev (dropWhile (\<lambda>c. c \<in> set cutset) (rev s))"

definition TrimLeft :: "string \<Rightarrow> string \<Rightarrow> string" where
  "TrimLeft s cutset = dropWhile (\<lambda>c. c \<in> set cutset) s"

definition Trim :: "string \<Rightarrow> string \<Rightarrow> string" where
  "Trim s cutset = TrimLeft (TrimRight s cutset) cutset"

text \<open>\<open>strings.TrimSuffix(s, suffix)\<close>.\<close>

definition TrimSuffix :: "string \<Rightarrow> string \<Rightarrow> string" where
  "TrimSuffix s suf = (if suffix suf s then take (length s - length suf) s else s)"

text \<open>
  \<open>filepath.Ext(path)\<close>: the loop runs from the last byte towards the first, stops at a
  path separator and returns the suffix that starts at the first dot it meets. The first
  argument of \<open>ExtScan\<close> is the part of the path not yet visited, reversed; the second is
  the suffix already visited.
\<close>

fun ExtScan :: "string \<Rightarrow> string \<Rightarrow> string" where
  "ExtScan [] acc = []"
| "ExtScan (c # rs) acc =
     (if c = CHR ''/'' then []
      else if c = CHR ''.'' then c # acc
      else ExtScan rs (c # acc))"

definition Ext :: "string \<Rightarrow> string" where
  "Ext path = ExtScan (rev path) []"

text \<open>
  The verb \<open>%d\<close> of \<open>fmt.Sprintf\<close>: the decimal digits of the integer, after a minus
  sign when it is negative. \<open>itoa\<close> gives the digits of a natural number.
\<close>

definition digit :: "nat \<Rightarrow> char" where
  "digit d = ''0123456789'' ! (d mod 10)"

fun itoa :: "nat \<Rightarrow> string" where
  "itoa n = (if n < 10 then [digit n] else itoa (n div 10) @ [digit (n mod 10)])"

declare itoa.simps [simp del]

definition fmt_d :: "int \<Rightarrow> string" where
  "fmt_d n = (if n < 0 then CHR ''-'' # itoa (nat (- n)) else itoa (nat n))"

section \<open>sanitizeFilename\<close>

definition unsafe :: "string list" where
  "unsafe = [''/'', [CHR 0x5C], ''..'', '':'', ''*'', ''?'', [CHR 0x22], ''<'', ''>'', ''|'']"

definition replaceUnsafe :: "string \<Rightarrow> string" where
  "replaceUnsafe filename = foldl (\<lambda>sanitized char. ReplaceAll sanitized char ''_'') filename unsafe"

definition sanitizeFilename :: "string \<Rightarrow> string" where
  "sanitizeFilename filename =
     (let sanitized = replaceUnsafe filename;
          sanitized = Trim sanitized '' .''
      in if sanitized = [] then ''unkown-file'' else sanitized)"

text \<open>
  A second description of the replacement step, in the words of the specification
  (section 4.6, step 2), to compare \<open>replaceUnsafe\<close> with: reading the name once from the
  left, each occurrence of \<open>..\<close> and each of the nine unsafe characters is replaced
  by the placeholder, and every other byte is kept.
\<close>

definition unsafeChars :: string where
  "unsafeChars = [CHR ''/'', CHR 0x5C, CHR '':'', CHR ''*'', CHR ''?'', CHR 0x22,
                  CHR ''<'', CHR ''>'', CHR ''|'']"

definition placeholder :: "char \<Rightarrow> char" where
  "placeholder x = (if x \<in> set unsafeChars then CHR ''_'' else x)"

fun specReplace :: "string \<Rightarrow> string" where
  "specReplace [] = []"
| "specReplace [x] = [placeholder x]"
| "specReplace (x # y # r) =
     (if x = CHR ''.'' \<and> y = CHR ''.'' then CHR ''_'' # specReplace r
      else placeholder x # specReplace (y # r))"

section \<open>getUniqueFilename\<close>

text \<open>
  \<open>os.Stat\<close> answers with no error, with a not-exist error or with another error, and
  \<open>getUniqueFilename\<close> takes a name as free only when \<open>os.IsNotExist\<close> holds of the
  answer: every other error counts as a taken name. The function is modelled on any such
  answers, given as the function \<open>stat\<close> from the entry name
  (\<open>filepath.Join(dir, name)\<close>) to the error, \<open>None\<close> for no error.
\<close>

datatype oserror = ENOENT | EINVAL | ENAMETOOLONG | EFAULT

definition IsNotExist :: "oserror option \<Rightarrow> bool" where
  "IsNotExist err = (err = Some ENOENT)"

text \<open>
  The probe loop \<open>for i := 1; ; i++\<close> has no bound, so it is a partial function: \<open>None\<close>
  is the loop that never returns. The counter \<open>i\<close> is a Go \<open>int\<close>, 64 bits wide on the
  platforms the server is built for: \<open>i++\<close> wraps, and \<open>%d\<close> prints the signed value.
\<close>

definition Sprintf_s_d_s :: "string \<Rightarrow> 64 word \<Rightarrow> string \<Rightarrow> string" where
  "Sprintf_s_d_s base i ext = base @ ''_'' @ fmt_d (sint i) @ ext"

partial_function (option) probe ::
  "(string \<Rightarrow> oserror option) \<Rightarrow> string \<Rightarrow> string \<Rightarrow> 64 word \<Rightarrow> string option" where
  "probe stat base ext i =
     (let newFilename = Sprintf_s_d_s base i ext
      in if IsNotExist (stat newFilename) then Some newFilename
         else probe stat base ext (i + 1))"

definition getUniqueFilename :: "(string \<Rightarrow> oserror option) \<Rightarrow> string \<Rightarrow> string option" where
  "getUniqueFilename stat filename =
     (let sanitized = sanitizeFilename filename
      in if IsNotExist (stat sanitized) then Some sanitized
         else let ext = Ext sanitized;
                  base = TrimSuffix sanitized ext
              in probe stat base ext 1)"

text \<open>
  \<open>os.Stat\<close> on an entry of the uploads directory, whose entries and contents are the
  map \<open>fs\<close>. Go refuses a name with a NUL byte before the system call (\<open>EINVAL\<close>), the
  file system refuses a name longer than \<open>NAME_MAX\<close> bytes (\<open>ENAMETOOLONG\<close>; 255 on
  the usual Linux file systems), and a name with no entry gives \<open>ENOENT\<close>.
\<close>

definition NAME_MAX :: nat where
  "NAME_MAX = 255"

definition Stat :: "(string \<rightharpoonup> string) \<Rightarrow> string \<Rightarrow> oserror option" where
  "Stat fs name =
     (if CHR 0x00 \<in> set name then Some EINVAL
      else if NAME_MAX < length name then Some ENAMETOOLONG
      else if fs name = None then Some ENOENT
      else None)"

section \<open>handleCompletedUploads\<close>

text \<open>
  The state the goroutine works on: the entries of the uploads directory with their
  contents, and the log. A path \<open>filepath.Join(uploadsDir, name)\<close> is the entry \<open>name\<close>.
  The tusd file store keeps the bytes of upload \<open>id\<close> in the entry \<open>id\<close> and its
  metadata record in the entry \<open>id.info\<close> of the same directory.
\<close>

record FileInfo =
  ID :: string
  MetaData :: "string \<rightharpoonup> string"

record HookEvent =
  Upload :: FileInfo

datatype level = Info | Warn | Error

datatype attr = Str string | Path string | Err oserror

type_synonym logEntry = "level \<times> string \<times> (string \<times> attr) list"

record world =
  files :: "string \<rightharpoonup> string"
  logged :: "logEntry list"

definition infoName :: "string \<Rightarrow> string" where
  "infoName uploadID = uploadID @ ''.info''"

definition slog :: "world \<Rightarrow> level \<Rightarrow> string \<Rightarrow> (string \<times> attr) list \<Rightarrow> world" where
  "slog w lv msg attrs = w\<lparr>logged := logged w @ [(lv, msg, attrs)]\<rparr>"

text \<open>Indexing a Go map: a missing key reads as the empty string.\<close>

definition index :: "(string \<rightharpoonup> string) \<Rightarrow> string \<Rightarrow> string" where
  "index m k = (case m k of None \<Rightarrow> [] | Some v \<Rightarrow> v)"

text \<open>
  \<open>os.Rename(oldPath, newPath)\<close> inside the uploads directory. It fails when the source
  entry is missing, and it may fail for a reason of the operating system, which the flag
  \<open>fault\<close> stands for; a failed rename changes nothing.
\<close>

definition Rename :: "bool \<Rightarrow> (string \<rightharpoonup> string) \<Rightarrow> string \<Rightarrow> string \<Rightarrow> oserror + (string \<rightharpoonup> string)" where
  "Rename fault fs old new =
     (case fs old of
        None \<Rightarrow> Inl ENOENT
      | Some content \<Rightarrow> if fault then Inl EFAULT else Inr ((fs(old := None))(new \<mapsto> content)))"

text \<open>
  One iteration of the loop of \<open>handleCompletedUploads\<close>, on the event received from the
  channel. The result is \<open>None\<close> when the iteration never ends (the probe loop of
  \<open>getUniqueFilename\<close>); every \<open>continue\<close> and the end of the body return the state.
\<close>

definition handleEvent :: "bool \<Rightarrow> world \<Rightarrow> HookEvent \<Rightarrow> world option" where
  "handleEvent fault w0 event =
     (let originalFilename = index (MetaData (Upload event)) ''filename'';
          uploadID = ID (Upload event);
          w = slog w0 Info ''Upload finished''
                [(''upload_id'', Str uploadID), (''filename'', Str originalFilename)]
      in if originalFilename = []
         then Some (slog w Warn ''No filename in metadata, keeping file with upload ID''
                      [(''upload_id'', Str uploadID)])
         else
           (case getUniqueFilename (Stat (files w)) originalFilename of
              None \<Rightarrow> None
            | Some finalFilename \<Rightarrow>
                if Stat (files w) uploadID \<noteq> None
                then Some (slog w Warn ''Upload file not found for renaming''
                             [(''upload_id'', Str uploadID), (''filename'', Str originalFilename),
                              (''path'', Path uploadID)])
                else
                  (case Rename fault (files w) uploadID finalFilename of
                     Inl err \<Rightarrow>
                       Some (slog w Error ''Failed to rename uploaded file''
                               [(''upload_id'', Str uploadID),
                                (''original_filename'', Str originalFilename),
                                (''final_filename'', Str finalFilename),
                                (''error'', Err err)])
                   | Inr fs \<Rightarrow>
                       Some (slog (w\<lparr>files := fs\<rparr>) Info ''File renamed successfully''
                               [(''from'', Str uploadID),
                                (''original_filename'', Str originalFilename),
                                (''final_filename'', Str finalFilename)]))))"

text \<open>
  The loop \<open>for { event := <-handler.CompleteUploads; ... }\<close> on the events the channel
  delivers, in the order it delivers them; each event comes with the fault flag of its
  rename.
\<close>

fun handleCompletedUploads :: "world \<Rightarrow> (bool \<times> HookEvent) list \<Rightarrow> world option" where
  "handleCompletedUploads w [] = Some w"
| "handleCompletedUploads w ((fault, event) # rest) =
     (case handleEvent fault w event of
        None \<Rightarrow> None
      | Some w' \<Rightarrow> handleCompletedUploads w' rest)"

section \<open>The upload state machine of the specification\<close>

text \<open>
  Modelled from the spec: the Upload State Machine (section 4.4: Create, Inspect, Append,
  Terminate) is the work of the tusd handler, a library that \<open>main.go\<close> only
  configures; its code is not among the sources. The records and \<open>Append\<close> below
  follow the words of sections 3 and 4.4: the operation runs under the upload's lock,
  fails with \<open>Conflict\<close> if the expected offset differs from the recorded one, fails
  with \<open>InvalidState\<close> if the upload is completed or terminated, and otherwise writes
  the bytes, advances the offset, moves \<open>Created\<close> to \<open>InProgress\<close> and, when the new
  offset equals the declared length, moves to \<open>Completed\<close> and publishes a completion
  event.
\<close>

datatype ustate = Created | InProgress | Completed | Terminated

datatype uerror = InvalidArgument | NotFound | Conflict | Busy | InvalidState | StorageFailure

record upload =
  declaredLength :: "nat option"
  offset :: nat
  metadata :: "string \<rightharpoonup> string"
  state :: ustate
  stored :: string

record engine =
  uploads :: "string \<rightharpoonup> upload"
  completions :: "(string \<times> (string \<rightharpoonup> string)) list"

text \<open>
  Modelled from the spec: \<open>Append(id, expectedOffset, bytes)\<close> of section 4.4, as the
  critical section that holds the upload's lock.
\<close>

definition Append :: "engine \<Rightarrow> string \<Rightarrow> nat \<Rightarrow> string \<Rightarrow> (uerror + nat) \<times> engine" where
  "Append e uid expectedOffset bytes =
     (case uploads e uid of
        None \<Rightarrow> (Inl NotFound, e)
      | Some u \<Rightarrow>
          if expectedOffset \<noteq> offset u then (Inl Conflict, e)
          else if state u = Completed \<or> state u = Terminated then (Inl InvalidState, e)
          else
            (let newOffset = offset u + length bytes;
                 u1 = u\<lparr>stored := stored u @ bytes, offset := newOffset,
                        state := (if state u = Created then InProgress else state u)\<rparr>
             in if declaredLength u = Some newOffset
                then (Inr newOffset,
                      e\<lparr>uploads := (uploads e)(uid \<mapsto> u1\<lparr>state := Completed\<rparr>),
                        completions := completions e @ [(uid, metadata u)]\<rparr>)
                else (Inr newOffset, e\<lparr>uploads := (uploads e)(uid \<mapsto> u1)\<rparr>)))"

section \<open>Properties of the string functions\<close>

lemma set_ReplaceAll: "set (ReplaceAll s (c # cs) new) \<subseteq> set s \<union> set new"
proof (induction s "c # cs" new rule: ReplaceAll.induct)
  case (1 new)
  then show ?case by simp
next
  case (2 x xs new)
  show ?case
  proof (cases "prefix (c # cs) (x # xs)")
    case True
    have "set (drop (length cs) xs) \<subseteq> set xs" by (rule set_drop_subset)
    with True 2 show ?thesis by auto
  next
    case False
    with 2 show ?thesis by auto
  qed
qed

lemma ReplaceAll_hit:
  "prefix (c # cs) (x # xs) \<Longrightarrow>
   ReplaceAll (x # xs) (c # cs) new = new @ ReplaceAll (drop (length cs) xs) (c # cs) new"
  by simp

lemma ReplaceAll_miss:
  "\<not> prefix (c # cs) (x # xs) \<Longrightarrow>
   ReplaceAll (x # xs) (c # cs) new = x # ReplaceAll xs (c # cs) new"
  by auto

lemma ReplaceAll_absent: "\<not> sublist (c # cs) s \<Longrightarrow> ReplaceAll s (c # cs) new = s"
proof (induction s)
  case Nil
  then show ?case by simp
next
  case (Cons x xs)
  from Cons.prems have np: "\<not> prefix (c # cs) (x # xs)" and "\<not> sublist (c # cs) xs"
    by (simp_all add: sublist_Cons_right)
  with Cons.IH have "ReplaceAll xs (c # cs) new = xs" by blast
  with ReplaceAll_miss [OF np, of new] show ?case by simp
qed

lemma sublist_single: "sublist [c] s \<longleftrightarrow> c \<in> set s"
  by (induction s) (auto simp: sublist_Cons_right)

lemma ReplaceAll_kills_char: "c \<notin> set new \<Longrightarrow> c \<notin> set (ReplaceAll s [c] new)"
  by (induction s) auto

lemma ReplaceAll_keeps_absent:
  "c \<notin> set s \<Longrightarrow> c \<notin> set new \<Longrightarrow> c \<notin> set (ReplaceAll s (d # ds) new)"
  using set_ReplaceAll [of s d ds new] by auto

lemma ReplaceAll_dots_head:
  "prefix ''.'' (ReplaceAll s ''..'' ''_'') \<Longrightarrow> prefix ''.'' s \<and> \<not> prefix ''..'' s"
  by (cases s) (auto split: if_splits)

lemma ReplaceAll_kills_dots: "\<not> sublist ''..'' (ReplaceAll s ''..'' ''_'')"
proof (induction s rule: length_induct)
  case (1 s)
  show ?case
  proof (cases s)
    case Nil
    then show ?thesis by simp
  next
    case (Cons x xs)
    show ?thesis
    proof (cases "prefix ''..'' (x # xs)")
      case True
      have "length (drop (length ''.'') xs) < length s" using Cons by simp
      with 1 have ih: "\<not> sublist ''..'' (ReplaceAll (drop (length ''.'') xs) ''..'' ''_'')"
        by blast
      have "ReplaceAll s ''..'' ''_'' = ''_'' @ ReplaceAll (drop (length ''.'') xs) ''..'' ''_''"
        unfolding Cons using True by (rule ReplaceAll_hit)
      with ih show ?thesis by (simp add: sublist_Cons_right)
    next
      case False
      have "length xs < length s" using Cons by simp
      with 1 have ih: "\<not> sublist ''..'' (ReplaceAll xs ''..'' ''_'')" by blast
      have np: "\<not> prefix ''..'' (x # ReplaceAll xs ''..'' ''_'')"
      proof
        assume p: "prefix ''..'' (x # ReplaceAll xs ''..'' ''_'')"
        then have x: "x = CHR ''.''" and "prefix ''.'' (ReplaceAll xs ''..'' ''_'')" by auto
        then have "prefix ''.'' xs" using ReplaceAll_dots_head by blast
        with x have "prefix ''..'' (x # xs)" by simp
        with False show False by contradiction
      qed
      have "ReplaceAll s ''..'' ''_'' = x # ReplaceAll xs ''..'' ''_''"
        unfolding Cons using False by (rule ReplaceAll_miss)
      with ih np show ?thesis by (simp add: sublist_Cons_right)
    qed
  qed
qed

lemma ReplaceAll_keeps_no_dots:
  assumes "\<not> sublist ''..'' s" and "d \<noteq> CHR ''.''"
  shows "\<not> sublist ''..'' (ReplaceAll s [d] ''_'')"
  using assms
proof (induction s)
  case Nil
  then show ?case by simp
next
  case (Cons x xs)
  then have ih: "\<not> sublist ''..'' (ReplaceAll xs [d] ''_'')"
    by (simp add: sublist_Cons_right)
  from Cons.prems have np: "\<not> prefix ''..'' (x # xs)"
    by (simp add: sublist_Cons_right)
  show ?case
  proof (cases xs)
    case Nil
    then show ?thesis by (simp add: sublist_Cons_right)
  next
    case (Cons y ys)
    with np ih Cons.prems(2) show ?thesis
      by (auto simp: sublist_Cons_right)
  qed
qed

lemma sublist_Trim: "sublist (Trim s cutset) s"
proof -
  have "suffix (dropWhile (\<lambda>c. c \<in> set cutset) (rev s)) (rev s)"
    by (rule suffix_dropWhile)
  then have "sublist (dropWhile (\<lambda>c. c \<in> set cutset) (rev s)) (rev s)"
    by (rule suffix_imp_sublist)
  then have "sublist (TrimRight s cutset) s"
    by (simp add: TrimRight_def sublist_rev_left)
  moreover have "sublist (Trim s cutset) (TrimRight s cutset)"
    by (simp add: Trim_def TrimLeft_def)
  ultimately show ?thesis
    by (rule sublist_order.order.trans [rotated])
qed

lemma set_Trim: "set (Trim s cutset) \<subseteq> set s"
proof
  fix x assume "x \<in> set (Trim s cutset)"
  then have "x \<in> set (TrimRight s cutset)"
    by (auto simp: Trim_def TrimLeft_def dest: set_dropWhileD)
  then show "x \<in> set s"
    by (auto simp: TrimRight_def dest: set_dropWhileD)
qed

lemma Trim_no_sublist: "\<not> sublist p s \<Longrightarrow> \<not> sublist p (Trim s cutset)"
  using sublist_Trim [of s cutset] sublist_order.order.trans by blast

lemma TrimRight_last:
  "TrimRight s cutset \<noteq> [] \<Longrightarrow> last (TrimRight s cutset) \<notin> set cutset"
  using hd_dropWhile [of "\<lambda>c. c \<in> set cutset" "rev s"]
  by (simp add: TrimRight_def last_rev)

lemma Trim_hd: "Trim s cutset \<noteq> [] \<Longrightarrow> hd (Trim s cutset) \<notin> set cutset"
  using hd_dropWhile [of "\<lambda>c. c \<in> set cutset" "TrimRight s cutset"]
  by (simp add: Trim_def TrimLeft_def)

lemma last_dropWhile_keep: "dropWhile P xs \<noteq> [] \<Longrightarrow> last (dropWhile P xs) = last xs"
  by (induction xs) (auto split: if_splits)

lemma Trim_last: "Trim s cutset \<noteq> [] \<Longrightarrow> last (Trim s cutset) \<notin> set cutset"
proof -
  assume ne: "Trim s cutset \<noteq> []"
  then have "last (Trim s cutset) = last (TrimRight s cutset)"
    by (simp add: Trim_def TrimLeft_def last_dropWhile_keep)
  moreover from ne have "TrimRight s cutset \<noteq> []"
    by (auto simp: Trim_def TrimLeft_def)
  ultimately show ?thesis using TrimRight_last by simp
qed

lemma Trim_fixed:
  assumes "s \<noteq> []" and "hd s \<notin> set cutset" and "last s \<notin> set cutset"
  shows "Trim s cutset = s"
proof -
  from assms have "rev s \<noteq> []" and "hd (rev s) \<notin> set cutset"
    by (simp_all add: hd_rev)
  then have "dropWhile (\<lambda>c. c \<in> set cutset) (rev s) = rev s"
    by (simp add: dropWhile_eq_self_iff)
  then have "TrimRight s cutset = s" by (simp add: TrimRight_def)
  moreover from assms have "dropWhile (\<lambda>c. c \<in> set cutset) s = s"
    by (simp add: dropWhile_eq_self_iff)
  ultimately show ?thesis by (simp add: Trim_def TrimLeft_def)
qed

lemma Trim_all_cut:
  assumes "set s \<subseteq> set cutset"
  shows "Trim s cutset = []"
proof -
  from assms have "TrimRight s cutset = []" by (auto simp: TrimRight_def)
  then show ?thesis by (simp add: Trim_def TrimLeft_def)
qed

lemma replaceUnsafe_eq:
  "replaceUnsafe s =
   ReplaceAll (ReplaceAll (ReplaceAll (ReplaceAll (ReplaceAll (ReplaceAll (ReplaceAll
     (ReplaceAll (ReplaceAll (ReplaceAll s ''/'' ''_'') [CHR 0x5C] ''_'') ''..'' ''_'')
       '':'' ''_'') ''*'' ''_'') ''?'' ''_'') [CHR 0x22] ''_'') ''<'' ''_'') ''>'' ''_'') ''|'' ''_''"
  by (simp add: replaceUnsafe_def unsafe_def)

lemma replaceUnsafe_no_char:
  assumes "c \<in> {CHR ''/'', CHR 0x5C, CHR '':'', CHR ''*'', CHR ''?'', CHR 0x22, CHR ''<'', CHR ''>'', CHR ''|''}"
  shows "c \<notin> set (replaceUnsafe s)"
  using assms unfolding replaceUnsafe_eq
  by (elim insertE emptyE; simp add: ReplaceAll_kills_char ReplaceAll_keeps_absent)

lemma replaceUnsafe_no_dots: "\<not> sublist ''..'' (replaceUnsafe s)"
  unfolding replaceUnsafe_eq
  by (intro ReplaceAll_keeps_no_dots ReplaceAll_kills_dots) simp_all

lemma replaceUnsafe_absent:
  assumes "\<forall>p \<in> set unsafe. \<not> sublist p s"
  shows "replaceUnsafe s = s"
  using assms unfolding replaceUnsafe_eq by (simp add: unsafe_def ReplaceAll_absent)

lemma sanitizeFilename_cases:
  "Trim (replaceUnsafe s) '' .'' = [] \<and> sanitizeFilename s = ''unkown-file'' \<or>
   Trim (replaceUnsafe s) '' .'' \<noteq> [] \<and> sanitizeFilename s = Trim (replaceUnsafe s) '' .''"
  by (simp add: sanitizeFilename_def Let_def)

lemma default_no_unsafe: "p \<in> set unsafe \<Longrightarrow> \<not> sublist p ''unkown-file''"
  by (auto simp: unsafe_def sublist_Cons_right)

lemma trimmed_no_unsafe:
  assumes "p \<in> set unsafe"
  shows "\<not> sublist p (Trim (replaceUnsafe s) '' .'')"
proof (cases "p = ''..''")
  case True
  then show ?thesis using replaceUnsafe_no_dots Trim_no_sublist by blast
next
  case False
  with assms obtain c where p: "p = [c]"
    and c: "c \<in> {CHR ''/'', CHR 0x5C, CHR '':'', CHR ''*'', CHR ''?'', CHR 0x22, CHR ''<'', CHR ''>'', CHR ''|''}"
    by (auto simp: unsafe_def)
  from c have "c \<notin> set (replaceUnsafe s)" by (rule replaceUnsafe_no_char)
  then have "c \<notin> set (Trim (replaceUnsafe s) '' .'')" using set_Trim by blast
  with p show ?thesis by (simp add: sublist_single)
qed

lemma sanitizeFilename_no_unsafe: "p \<in> set unsafe \<Longrightarrow> \<not> sublist p (sanitizeFilename s)"
  using sanitizeFilename_cases [of s] default_no_unsafe trimmed_no_unsafe by metis

lemma sanitizeFilename_nonempty: "sanitizeFilename s \<noteq> []"
  using sanitizeFilename_cases [of s] by auto

lemma sanitizeFilename_hd: "hd (sanitizeFilename s) \<notin> set '' .''"
  using sanitizeFilename_cases [of s] Trim_hd [of "replaceUnsafe s" "'' .''"] by auto

lemma sanitizeFilename_last: "last (sanitizeFilename s) \<notin> set '' .''"
  using sanitizeFilename_cases [of s] Trim_last [of "replaceUnsafe s" "'' .''"] by auto

lemma sanitizeFilename_no_slash: "CHR ''/'' \<notin> set (sanitizeFilename s)"
  using sanitizeFilename_no_unsafe [of "''/''" s] by (simp add: unsafe_def sublist_single)

lemma sanitizeFilename_blank:
  assumes "set s \<subseteq> set '' .''" and "\<not> sublist ''..'' s"
  shows "sanitizeFilename s = ''unkown-file''"
proof -
  have "\<forall>p \<in> set unsafe. \<not> sublist p s"
    using assms by (auto simp: unsafe_def sublist_single)
  then have "replaceUnsafe s = s" by (rule replaceUnsafe_absent)
  moreover have "Trim s '' .'' = []" using assms(1) by (rule Trim_all_cut)
  ultimately show ?thesis by (simp add: sanitizeFilename_def)
qed

lemmas sanitize_eval =
  sanitizeFilename_def replaceUnsafe_def unsafe_def Trim_def TrimLeft_def TrimRight_def Let_def

section \<open>Properties of the probe loop\<close>

lemma itoa_small: "n < 10 \<Longrightarrow> itoa n = [digit n]"
  by (simp add: itoa.simps)

lemma itoa_large: "\<not> n < 10 \<Longrightarrow> itoa n = itoa (n div 10) @ [digit (n mod 10)]"
  by (subst itoa.simps) simp

lemma itoa_nonempty: "itoa n \<noteq> []"
  by (cases "n < 10") (simp_all add: itoa_small itoa_large)

lemma fmt_d_nonempty: "fmt_d n \<noteq> []"
  by (simp add: fmt_d_def itoa_nonempty)

lemma fmt_d_nat: "fmt_d (int n) = itoa n"
  by (simp add: fmt_d_def)

lemma sint_of_nat_small:
  assumes "n < 2 ^ 63"
  shows "sint (of_nat n :: 64 word) = int n"
proof -
  have "signed_take_bit 63 (int n) = int n"
    using assms by (intro signed_take_bit_int_eq_self) simp_all
  then show ?thesis by (simp add: signed_of_nat)
qed

lemma Sprintf_of_nat:
  "n < 2 ^ 63 \<Longrightarrow> Sprintf_s_d_s base (of_nat n) ext = base @ ''_'' @ itoa n @ ext"
  by (simp add: Sprintf_s_d_s_def sint_of_nat_small fmt_d_nat)

lemma ExtScan_suffix: "suffix (ExtScan rs acc) (rev rs @ acc)"
proof (induction rs arbitrary: acc)
  case Nil
  then show ?case by simp
next
  case (Cons c rs)
  have "suffix (ExtScan rs (c # acc)) (rev rs @ c # acc)" by (rule Cons.IH)
  moreover have "suffix (c # acc) (rev rs @ c # acc)" by (rule suffix_appendI) simp
  ultimately show ?case by auto
qed

lemma Ext_suffix: "suffix (Ext path) path"
  using ExtScan_suffix [of "rev path" "[]"] by (simp add: Ext_def)

lemma TrimSuffix_Ext: "TrimSuffix path (Ext path) @ Ext path = path"
  using suffix_take [OF Ext_suffix, of path] by (simp add: TrimSuffix_def Ext_suffix)

lemma ExtScan_no_dot: "CHR ''.'' \<notin> set rs \<Longrightarrow> ExtScan rs acc = []"
  by (induction rs arbitrary: acc) auto

lemma Ext_no_dot: "CHR ''.'' \<notin> set path \<Longrightarrow> Ext path = []"
  by (simp add: Ext_def ExtScan_no_dot)

lemma ExtScan_last_dot:
  "CHR ''/'' \<notin> set rs \<Longrightarrow> CHR ''.'' \<in> set rs \<Longrightarrow> CHR ''.'' \<notin> set acc \<Longrightarrow>
   \<exists>e. ExtScan rs acc = CHR ''.'' # e \<and> CHR ''.'' \<notin> set e"
  by (induction rs arbitrary: acc) auto

lemma Ext_last_dot:
  "CHR ''/'' \<notin> set path \<Longrightarrow> CHR ''.'' \<in> set path \<Longrightarrow>
   \<exists>e. Ext path = CHR ''.'' # e \<and> CHR ''.'' \<notin> set e"
  using ExtScan_last_dot [of "rev path" "[]"] by (simp add: Ext_def)

lemma files_slog [simp]: "files (slog w lv msg attrs) = files w"
  by (simp add: slog_def)

lemma logged_slog [simp]: "logged (slog w lv msg attrs) = logged w @ [(lv, msg, attrs)]"
  by (simp add: slog_def)

lemma ReplaceAll_single:
  "ReplaceAll s [c] ''_'' = map (\<lambda>x. if x = c then CHR ''_'' else x) s"
  by (induction s) auto

lemma collapse_dots:
  assumes g: "\<And>x. g x = CHR ''.'' \<longleftrightarrow> x = CHR ''.''"
    and h: "h (CHR ''_'') = CHR ''_''"
    and hg: "\<And>x. h (g x) = placeholder x"
  shows "map h (ReplaceAll (map g s) ''..'' ''_'') = specReplace s"
proof (induction s rule: specReplace.induct)
  case 1
  then show ?case by simp
next
  case (2 x)
  have "\<not> prefix ''..'' [g x]" by simp
  then have "ReplaceAll [g x] ''..'' ''_'' = g x # ReplaceAll [] ''..'' ''_''"
    by (rule ReplaceAll_miss)
  then show ?case by (simp add: hg)
next
  case (3 x y r)
  show ?case
  proof (cases "x = CHR ''.'' \<and> y = CHR ''.''")
    case True
    moreover have "g (CHR ''.'') = CHR ''.''" by (simp add: g)
    ultimately have "prefix ''..'' (g x # g y # map g r)" by simp
    then have "ReplaceAll (g x # g y # map g r) ''..'' ''_'' =
        ''_'' @ ReplaceAll (drop (length ''.'') (g y # map g r)) ''..'' ''_''"
      by (rule ReplaceAll_hit)
    then have "map h (ReplaceAll (map g (x # y # r)) ''..'' ''_'') =
        CHR ''_'' # map h (ReplaceAll (map g r) ''..'' ''_'')"
      by (simp add: h)
    with True "3.IH"(1) show ?thesis by simp
  next
    case False
    have "\<not> prefix ''..'' (g x # g y # map g r)"
    proof
      assume "prefix ''..'' (g x # g y # map g r)"
      then have "g x = CHR ''.''" and "g y = CHR ''.''" by auto
      then have "x = CHR ''.''" and "y = CHR ''.''" using g by blast+
      with False show False by simp
    qed
    then have "ReplaceAll (g x # g y # map g r) ''..'' ''_'' =
        g x # ReplaceAll (g y # map g r) ''..'' ''_''"
      by (rule ReplaceAll_miss)
    then have "map h (ReplaceAll (map g (x # y # r)) ''..'' ''_'') =
        placeholder x # map h (ReplaceAll (map g (y # r)) ''..'' ''_'')"
      by (simp add: hg)
    with False "3.IH"(2) show ?thesis by auto
  qed
qed

lemma separators_stage:
  "ReplaceAll (ReplaceAll s ''/'' ''_'') [CHR 0x5C] ''_'' =
   map (\<lambda>x. if x = CHR ''/'' \<or> x = CHR 0x5C then CHR ''_'' else x) s"
  by (simp add: ReplaceAll_single)

lemma others_stage:
  "ReplaceAll (ReplaceAll (ReplaceAll (ReplaceAll (ReplaceAll (ReplaceAll (ReplaceAll t
       '':'' ''_'') ''*'' ''_'') ''?'' ''_'') [CHR 0x22] ''_'') ''<'' ''_'') ''>'' ''_'') ''|'' ''_'' =
   map (\<lambda>x. if x \<in> {CHR '':'', CHR ''*'', CHR ''?'', CHR 0x22, CHR ''<'', CHR ''>'', CHR ''|''}
             then CHR ''_'' else x) t"
  by (simp add: ReplaceAll_single)

lemma replaceUnsafe_specReplace: "replaceUnsafe s = specReplace s"
proof -
  let ?g = "\<lambda>x. if x = CHR ''/'' \<or> x = CHR 0x5C then CHR ''_'' else x"
  let ?h = "\<lambda>x. if x \<in> {CHR '':'', CHR ''*'', CHR ''?'', CHR 0x22, CHR ''<'', CHR ''>'', CHR ''|''}
             then CHR ''_'' else x"
  have "replaceUnsafe s = map ?h (ReplaceAll (map ?g s) ''..'' ''_'')"
    unfolding replaceUnsafe_eq others_stage separators_stage ..
  also have "\<dots> = specReplace s"
  proof (rule collapse_dots)
    show "?g x = CHR ''.'' \<longleftrightarrow> x = CHR ''.''" for x by simp
    show "?h (CHR ''_'') = CHR ''_''" by simp
    show "?h (?g x) = placeholder x" for x by (simp add: placeholder_def unsafeChars_def)
  qed
  finally show ?thesis .
qed

lemma Trim_decompose:
  "\<exists>l r. s = l @ Trim s cutset @ r \<and> set l \<subseteq> set cutset \<and> set r \<subseteq> set cutset"
proof -
  let ?P = "\<lambda>c. c \<in> set cutset"
  let ?r = "rev (takeWhile ?P (rev s))"
  let ?l = "takeWhile ?P (TrimRight s cutset)"
  have a: "s = TrimRight s cutset @ ?r"
    unfolding TrimRight_def by (metis rev_append rev_rev_ident takeWhile_dropWhile_id)
  have b: "TrimRight s cutset = ?l @ Trim s cutset" by (simp add: Trim_def TrimLeft_def)
  have "s = ?l @ Trim s cutset @ ?r" using a b by (metis append.assoc)
  moreover have "set ?l \<subseteq> set cutset" by (auto dest: set_takeWhileD)
  moreover have "set ?r \<subseteq> set cutset" by (auto dest: set_takeWhileD)
  ultimately show ?thesis by blast
qed

lemma probe_free:
  "IsNotExist (stat (Sprintf_s_d_s base i ext)) \<Longrightarrow>
   probe stat base ext i = Some (Sprintf_s_d_s base i ext)"
  by (subst probe.simps) simp

lemma probe_taken:
  "\<not> IsNotExist (stat (Sprintf_s_d_s base i ext)) \<Longrightarrow>
   probe stat base ext i = probe stat base ext (i + 1)"
  by (subst probe.simps) simp

lemma probe_reaches:
  assumes "IsNotExist (stat (Sprintf_s_d_s base (of_nat (k + d)) ext))"
    and "\<And>j. k \<le> j \<Longrightarrow> j < k + d \<Longrightarrow> \<not> IsNotExist (stat (Sprintf_s_d_s base (of_nat j) ext))"
  shows "probe stat base ext (of_nat k) = Some (Sprintf_s_d_s base (of_nat (k + d)) ext)"
  using assms
proof (induction d arbitrary: k)
  case 0
  then show ?case by (simp add: probe_free)
next
  case (Suc d)
  have "\<not> IsNotExist (stat (Sprintf_s_d_s base (of_nat k) ext))"
    using Suc.prems(2) [of k] by simp
  then have "probe stat base ext (of_nat k) = probe stat base ext (of_nat k + 1)"
    by (rule probe_taken)
  also have "\<dots> = probe stat base ext (of_nat (Suc k))" by (simp add: add.commute)
  also have "\<dots> = Some (Sprintf_s_d_s base (of_nat (Suc k + d)) ext)"
  proof (rule Suc.IH)
    show "IsNotExist (stat (Sprintf_s_d_s base (of_nat (Suc k + d)) ext))"
      using Suc.prems(1) by simp
  next
    fix j assume "Suc k \<le> j" and "j < Suc k + d"
    then show "\<not> IsNotExist (stat (Sprintf_s_d_s base (of_nat j) ext))"
      using Suc.prems(2) [of j] by simp
  qed
  finally show ?case by simp
qed

lemma probe_first_free:
  assumes "k \<le> i"
    and "IsNotExist (stat (Sprintf_s_d_s base (of_nat i) ext))"
    and "\<And>j. k \<le> j \<Longrightarrow> j < i \<Longrightarrow> \<not> IsNotExist (stat (Sprintf_s_d_s base (of_nat j) ext))"
  shows "probe stat base ext (of_nat k) = Some (Sprintf_s_d_s base (of_nat i) ext)"
proof -
  from assms(1) obtain d where d: "i = k + d" using le_Suc_ex by blast
  show ?thesis using assms(2,3) unfolding d by (intro probe_reaches) auto
qed

lemma probe_Some:
  assumes "probe stat base ext i = Some y"
  shows "\<exists>j. y = Sprintf_s_d_s base j ext \<and> IsNotExist (stat y)"
proof (rule probe.raw_induct
    [where P = "\<lambda>stat base ext i y. \<exists>j. y = Sprintf_s_d_s base j ext \<and> IsNotExist (stat y)",
     OF _ assms])
  fix p :: "(string \<Rightarrow> oserror option) \<Rightarrow> string \<Rightarrow> string \<Rightarrow> 64 word \<Rightarrow> string option"
  fix stat base ext i y
  assume ih: "\<And>stat base ext i y. p stat base ext i = Some y \<Longrightarrow>
      \<exists>j. y = Sprintf_s_d_s base j ext \<and> IsNotExist (stat y)"
  assume eq: "(let newFilename = Sprintf_s_d_s base i ext
               in if IsNotExist (stat newFilename) then Some newFilename
                  else p stat base ext (i + 1)) = Some y"
  show "\<exists>j. y = Sprintf_s_d_s base j ext \<and> IsNotExist (stat y)"
  proof (cases "IsNotExist (stat (Sprintf_s_d_s base i ext))")
    case True
    with eq show ?thesis by auto
  next
    case False
    with eq have "p stat base ext (i + 1) = Some y" by simp
    from ih [OF this] show ?thesis by blast
  qed
qed

lemma probe_never:
  assumes "\<And>j. \<not> IsNotExist (stat (Sprintf_s_d_s base j ext))"
  shows "probe stat base ext i = None"
proof (cases "probe stat base ext i")
  case None
  then show ?thesis .
next
  case (Some y)
  from probe_Some [OF this] assms show ?thesis by blast
qed

lemma getUniqueFilename_Some:
  assumes "getUniqueFilename stat filename = Some name"
  shows "IsNotExist (stat name)"
proof (cases "IsNotExist (stat (sanitizeFilename filename))")
  case True
  with assms show ?thesis by (simp add: getUniqueFilename_def)
next
  case False
  with assms have "probe stat (TrimSuffix (sanitizeFilename filename) (Ext (sanitizeFilename filename)))
        (Ext (sanitizeFilename filename)) 1 = Some name"
    by (simp add: getUniqueFilename_def Let_def)
  from probe_Some [OF this] show ?thesis by blast
qed

lemma IsNotExist_Stat:
  "IsNotExist (Stat fs name) \<longleftrightarrow>
   CHR 0x00 \<notin> set name \<and> length name \<le> NAME_MAX \<and> fs name = None"
  by (auto simp: IsNotExist_def Stat_def)

lemma Stat_None: "Stat fs name = None \<Longrightarrow> fs name \<noteq> None"
  by (auto simp: Stat_def split: if_splits)

lemma probe_name_refused:
  assumes "CHR 0x00 \<in> set (base @ ext) \<or> NAME_MAX < length (base @ ext) + 2"
  shows "\<not> IsNotExist (Stat fs (Sprintf_s_d_s base i ext))"
proof -
  have "fmt_d (sint i) \<noteq> []" by (rule fmt_d_nonempty)
  then have "1 \<le> length (fmt_d (sint i))" by (cases "fmt_d (sint i)") simp_all
  then have "length (base @ ext) + 2 \<le> length (Sprintf_s_d_s base i ext)"
    unfolding Sprintf_s_d_s_def by simp
  moreover have "set (base @ ext) \<subseteq> set (Sprintf_s_d_s base i ext)"
    by (auto simp: Sprintf_s_d_s_def)
  ultimately show ?thesis using assms by (auto simp: IsNotExist_Stat)
qed

lemma getUniqueFilename_hangs:
  assumes "CHR 0x00 \<in> set (sanitizeFilename filename) \<or>
           NAME_MAX < length (sanitizeFilename filename) + 2 \<and>
           \<not> IsNotExist (Stat fs (sanitizeFilename filename))"
  shows "getUniqueFilename (Stat fs) filename = None"
proof -
  let ?s = "sanitizeFilename filename"
  let ?ext = "Ext ?s"
  let ?base = "TrimSuffix ?s ?ext"
  have split: "?base @ ?ext = ?s" by (rule TrimSuffix_Ext)
  from assms have taken: "\<not> IsNotExist (Stat fs ?s)" by (auto simp: IsNotExist_Stat)
  from assms have "CHR 0x00 \<in> set (?base @ ?ext) \<or> NAME_MAX < length (?base @ ?ext) + 2"
    unfolding split by blast
  then have "\<not> IsNotExist (Stat fs (Sprintf_s_d_s ?base j ?ext))" for j
    by (rule probe_name_refused)
  then have "probe (Stat fs) ?base ?ext 1 = None" by (intro probe_never)
  with taken show ?thesis by (simp add: getUniqueFilename_def Let_def)
qed

lemma sublist_set: "sublist p s \<Longrightarrow> set p \<subseteq> set s"
  by (auto simp: sublist_def)

lemma sanitizeFilename_clean:
  assumes "s \<noteq> []" and "set s \<inter> (set unsafeChars \<union> set '' .'') = {}"
  shows "sanitizeFilename s = s"
proof -
  have "\<not> sublist p s" if "p \<in> set unsafe" for p
  proof
    assume "sublist p s"
    then have "set p \<subseteq> set s" by (rule sublist_set)
    with that assms(2) show False by (auto simp: unsafe_def unsafeChars_def)
  qed
  then have "replaceUnsafe s = s" by (intro replaceUnsafe_absent) blast
  moreover have "Trim s '' .'' = s"
  proof (rule Trim_fixed)
    show "s \<noteq> []" by (rule assms(1))
    from assms(1) have "hd s \<in> set s" and "last s \<in> set s" by simp_all
    with assms(2) show "hd s \<notin> set '' .''" and "last s \<notin> set '' .''" by auto
  qed
  ultimately show ?thesis using assms(1) by (simp add: sanitizeFilename_def)
qed

lemma sanitizeFilename_letters:
  "0 < n \<Longrightarrow> sanitizeFilename (replicate n (CHR ''a'')) = replicate n (CHR ''a'')"
  by (rule sanitizeFilename_clean) (auto simp: unsafeChars_def)

section \<open>Claims about sanitizeFilename\<close>

text \<open>
  Claim C1, with the default name stated for the inputs that reach it. The ten
  replacements of \<open>sanitizeFilename\<close> amount to the single pass \<open>specReplace\<close>: each
  occurrence of \<open>..\<close> and each unsafe character becomes the placeholder and every other
  byte stays. The result is what is left of that string once the leading and trailing
  spaces and dots are removed, or the default name \<open>unkown-file\<close> when nothing is left.
  So the result contains none of the ten unsafe sequences (no path separator and no
  \<open>..\<close>), is not empty and neither starts nor ends with a space or a dot;
  \<open>../../etc/passwd\<close> becomes \<open>____etc_passwd\<close>; and an input made only of spaces and dots
  in which no two dots are adjacent yields the default name.
\<close>

theorem sanitizeFilename_safe:
  "(\<exists>l t r. specReplace s = l @ t @ r \<and> set l \<subseteq> set '' .'' \<and> set r \<subseteq> set '' .'' \<and>
      (t = [] \<or> hd t \<notin> set '' .'' \<and> last t \<notin> set '' .'') \<and>
      sanitizeFilename s = (if t = [] then ''unkown-file'' else t)) \<and>
   (\<forall>p \<in> set unsafe. \<not> sublist p (sanitizeFilename s)) \<and>
   sanitizeFilename s \<noteq> [] \<and>
   hd (sanitizeFilename s) \<notin> set '' .'' \<and> last (sanitizeFilename s) \<notin> set '' .'' \<and>
   sanitizeFilename ''../../etc/passwd'' = ''____etc_passwd'' \<and>
   (set s \<subseteq> set '' .'' \<and> \<not> sublist ''..'' s \<longrightarrow> sanitizeFilename s = ''unkown-file'')"
proof -
  let ?t = "Trim (specReplace s) '' .''"
  from Trim_decompose [of "specReplace s" "'' .''"]
  obtain l r where d: "specReplace s = l @ ?t @ r"
    and l: "set l \<subseteq> set '' .''" and r: "set r \<subseteq> set '' .''"
    by blast
  have trimmed: "?t = [] \<or> hd ?t \<notin> set '' .'' \<and> last ?t \<notin> set '' .''"
    using Trim_hd [of "specReplace s" "'' .''"] Trim_last [of "specReplace s" "'' .''"]
    by blast
  have out: "sanitizeFilename s = (if ?t = [] then ''unkown-file'' else ?t)"
    by (simp add: sanitizeFilename_def Let_def replaceUnsafe_specReplace)
  from d l r trimmed out
  have refine: "\<exists>l t r. specReplace s = l @ t @ r \<and> set l \<subseteq> set '' .'' \<and> set r \<subseteq> set '' .'' \<and>
      (t = [] \<or> hd t \<notin> set '' .'' \<and> last t \<notin> set '' .'') \<and>
      sanitizeFilename s = (if t = [] then ''unkown-file'' else t)"
    by blast
  have "sanitizeFilename ''../../etc/passwd'' = ''____etc_passwd''"
    by (simp add: sanitize_eval)
  with refine show ?thesis
    using sanitizeFilename_no_unsafe sanitizeFilename_nonempty sanitizeFilename_hd
      sanitizeFilename_last sanitizeFilename_blank by blast
qed

theorem sanitizeFilename_safe_witness:
  "set '' . '' \<subseteq> set '' .'' \<and> \<not> sublist ''..'' '' . '' \<and>
   sanitizeFilename '' . '' = ''unkown-file'' \<and> sanitizeFilename '' . '' \<noteq> []"
proof -
  have "set '' . '' \<subseteq> set '' .'' \<and> \<not> sublist ''..'' '' . ''"
    by (simp add: sublist_Cons_right)
  with sanitizeFilename_safe [of "'' . ''"] show ?thesis by blast
qed

text \<open>
  The claim as written fails on inputs of dots and spaces that contain two adjacent
  dots: the pair is replaced by the placeholder before trimming, so the name is not empty.
\<close>

theorem sanitizeFilename_only_dots_counterexample:
  "set ''..'' \<subseteq> set '' .'' \<and> sanitizeFilename ''..'' = ''_'' \<and>
   sanitizeFilename ''..'' \<noteq> ''unkown-file''"
  by (simp add: sanitize_eval)

text \<open>
  Claim C8. \<open>sanitizeFilename\<close> is idempotent: every result of sanitization is a fixed
  point of sanitization.
\<close>

theorem sanitizeFilename_idempotent:
  "sanitizeFilename (sanitizeFilename s) = sanitizeFilename s"
proof -
  let ?t = "sanitizeFilename s"
  have "\<forall>p \<in> set unsafe. \<not> sublist p ?t" using sanitizeFilename_no_unsafe by blast
  then have "replaceUnsafe ?t = ?t" by (rule replaceUnsafe_absent)
  moreover have "Trim ?t '' .'' = ?t"
    using sanitizeFilename_nonempty sanitizeFilename_hd sanitizeFilename_last
    by (rule Trim_fixed)
  ultimately show ?thesis
    using sanitizeFilename_nonempty [of s] sanitizeFilename_cases [of ?t] by auto
qed

theorem sanitizeFilename_idempotent_witness:
  "sanitizeFilename (sanitizeFilename ''a/b..c '') = sanitizeFilename ''a/b..c '' \<and>
   sanitizeFilename ''a/b..c '' = ''a_b_c''"
  using sanitizeFilename_idempotent [of "''a/b..c ''"] by (simp add: sanitize_eval)

section \<open>Claims about getUniqueFilename\<close>

lemmas unique_eval =
  getUniqueFilename_def Let_def Ext_def TrimSuffix_def probe.simps Sprintf_s_d_s_def fmt_d_def
  itoa.simps digit_def suffix_def Stat_def IsNotExist_def NAME_MAX_def

text \<open>
  Claim C2, on any answers of \<open>os.Stat\<close>. \<open>getUniqueFilename\<close> returns the sanitized
  name when \<open>os.Stat\<close> reports it missing. Otherwise it returns \<open>base_i.ext\<close> for the
  smallest \<open>i \<ge> 1\<close> (below \<open>2 ^ 63\<close>, where the counter wraps) whose name \<open>os.Stat\<close>
  reports missing, where \<open>ext\<close> starts at the last dot of the sanitized name (and is empty
  when there is none) and \<open>base\<close> is what precedes it; and it never returns when
  \<open>os.Stat\<close> reports no probe name missing, for any value of the counter. With
  \<open>report.txt\<close> present the next upload of that name becomes \<open>report_1.txt\<close>, the one after
  it \<open>report_2.txt\<close>. The claim promises the sanitized name whenever no file has that name:
  on an empty directory and a name of 256 letters no file has the name, \<open>os.Stat\<close> refuses
  it as too long, the source takes that for an existing file, and there is no result.
\<close>

theorem getUniqueFilename_resolves:
  assumes "sanitized = sanitizeFilename filename"
    and "ext = Ext sanitized"
    and "base = TrimSuffix sanitized ext"
  shows "(IsNotExist (stat sanitized) \<longrightarrow> getUniqueFilename stat filename = Some sanitized) \<and>
    (\<not> IsNotExist (stat sanitized) \<and> 1 \<le> i \<and> i < 2 ^ 63 \<and>
       IsNotExist (stat (base @ ''_'' @ itoa i @ ext)) \<and>
       (\<forall>j. 1 \<le> j \<and> j < i \<longrightarrow> \<not> IsNotExist (stat (base @ ''_'' @ itoa j @ ext))) \<longrightarrow>
       getUniqueFilename stat filename = Some (base @ ''_'' @ itoa i @ ext)) \<and>
    (\<not> IsNotExist (stat sanitized) \<and>
       (\<forall>j :: 64 word. \<not> IsNotExist (stat (base @ ''_'' @ fmt_d (sint j) @ ext))) \<longrightarrow>
       getUniqueFilename stat filename = None) \<and>
    base @ ext = sanitized \<and>
    (if CHR ''.'' \<in> set sanitized then \<exists>e. ext = CHR ''.'' # e \<and> CHR ''.'' \<notin> set e
     else ext = []) \<and>
    getUniqueFilename (Stat [''report.txt'' \<mapsto> ''first'']) ''report.txt'' = Some ''report_1.txt'' \<and>
    getUniqueFilename (Stat [''report.txt'' \<mapsto> ''first'', ''report_1.txt'' \<mapsto> ''second''])
      ''report.txt'' = Some ''report_2.txt'' \<and>
    getUniqueFilename (Stat Map.empty) (replicate 256 (CHR ''a'')) = None"
proof -
  have taken: "getUniqueFilename stat filename = probe stat base ext 1"
    if "\<not> IsNotExist (stat sanitized)"
    using that assms by (simp add: getUniqueFilename_def Let_def)
  have free: "IsNotExist (stat sanitized) \<longrightarrow> getUniqueFilename stat filename = Some sanitized"
    using assms(1) by (simp add: getUniqueFilename_def)
  have least: "\<not> IsNotExist (stat sanitized) \<and> 1 \<le> i \<and> i < 2 ^ 63 \<and>
       IsNotExist (stat (base @ ''_'' @ itoa i @ ext)) \<and>
       (\<forall>j. 1 \<le> j \<and> j < i \<longrightarrow> \<not> IsNotExist (stat (base @ ''_'' @ itoa j @ ext))) \<longrightarrow>
       getUniqueFilename stat filename = Some (base @ ''_'' @ itoa i @ ext)"
  proof
    assume h: "\<not> IsNotExist (stat sanitized) \<and> 1 \<le> i \<and> i < 2 ^ 63 \<and>
       IsNotExist (stat (base @ ''_'' @ itoa i @ ext)) \<and>
       (\<forall>j. 1 \<le> j \<and> j < i \<longrightarrow> \<not> IsNotExist (stat (base @ ''_'' @ itoa j @ ext)))"
    then have small: "i < 2 ^ 63" by blast
    have name: "Sprintf_s_d_s base (of_nat j) ext = base @ ''_'' @ itoa j @ ext" if "j \<le> i" for j
      using that small by (intro Sprintf_of_nat) simp
    have "probe stat base ext (of_nat 1) = Some (Sprintf_s_d_s base (of_nat i) ext)"
    proof (rule probe_first_free)
      show "1 \<le> i" using h by blast
      show "IsNotExist (stat (Sprintf_s_d_s base (of_nat i) ext))" using h by (simp add: name)
      show "\<not> IsNotExist (stat (Sprintf_s_d_s base (of_nat j) ext))" if "1 \<le> j" and "j < i" for j
        using h that by (simp add: name)
    qed
    then have "probe stat base ext 1 = Some (base @ ''_'' @ itoa i @ ext)"
      by (simp add: name)
    with h taken show "getUniqueFilename stat filename = Some (base @ ''_'' @ itoa i @ ext)"
      by simp
  qed
  have never: "\<not> IsNotExist (stat sanitized) \<and>
       (\<forall>j :: 64 word. \<not> IsNotExist (stat (base @ ''_'' @ fmt_d (sint j) @ ext))) \<longrightarrow>
       getUniqueFilename stat filename = None"
  proof
    assume h: "\<not> IsNotExist (stat sanitized) \<and>
       (\<forall>j :: 64 word. \<not> IsNotExist (stat (base @ ''_'' @ fmt_d (sint j) @ ext)))"
    then have "probe stat base ext 1 = None"
      by (intro probe_never) (simp add: Sprintf_s_d_s_def)
    with h taken show "getUniqueFilename stat filename = None" by simp
  qed
  have split: "base @ ext = sanitized"
    using assms(2,3) by (simp add: TrimSuffix_Ext)
  have "CHR ''/'' \<notin> set sanitized"
    using assms(1) by (simp add: sanitizeFilename_no_slash)
  then have dot: "if CHR ''.'' \<in> set sanitized
      then \<exists>e. ext = CHR ''.'' # e \<and> CHR ''.'' \<notin> set e else ext = []"
    using assms(2) by (simp add: Ext_no_dot Ext_last_dot)
  have e1: "getUniqueFilename (Stat [''report.txt'' \<mapsto> ''first'']) ''report.txt'' = Some ''report_1.txt''"
    by (simp add: sanitize_eval unique_eval)
  have e2: "getUniqueFilename (Stat [''report.txt'' \<mapsto> ''first'', ''report_1.txt'' \<mapsto> ''second''])
      ''report.txt'' = Some ''report_2.txt''"
    by (simp add: sanitize_eval unique_eval)
  have e3: "getUniqueFilename (Stat Map.empty) (replicate 256 (CHR ''a'')) = None"
    by (rule getUniqueFilename_hangs)
      (simp add: sanitizeFilename_letters IsNotExist_Stat NAME_MAX_def)
  from free least never split dot e1 e2 e3 show ?thesis by blast
qed

theorem getUniqueFilename_resolves_witness:
  "''a.tar.gz'' = sanitizeFilename ''a.tar.gz'' \<and>
   ''.gz'' = Ext ''a.tar.gz'' \<and>
   ''a.tar'' = TrimSuffix ''a.tar.gz'' ''.gz'' \<and>
   \<not> IsNotExist (Stat [''a.tar.gz'' \<mapsto> ''1'', ''a.tar_1.gz'' \<mapsto> ''2''] ''a.tar.gz'') \<and>
   IsNotExist (Stat [''a.tar.gz'' \<mapsto> ''1'', ''a.tar_1.gz'' \<mapsto> ''2'']
     (''a.tar'' @ ''_'' @ itoa 2 @ ''.gz'')) \<and>
   getUniqueFilename (Stat [''a.tar.gz'' \<mapsto> ''1'', ''a.tar_1.gz'' \<mapsto> ''2'']) ''a.tar.gz'' =
     Some ''a.tar_2.gz'' \<and>
   [CHR 0x00] = sanitizeFilename [CHR 0x00] \<and>
   \<not> IsNotExist (Stat Map.empty [CHR 0x00]) \<and>
   getUniqueFilename (Stat Map.empty) [CHR 0x00] = None"
proof -
  let ?fs = "[''a.tar.gz'' \<mapsto> ''1'', ''a.tar_1.gz'' \<mapsto> ''2'']"
  have h1: "''a.tar.gz'' = sanitizeFilename ''a.tar.gz''" by (simp add: sanitize_eval)
  have h2: "''.gz'' = Ext ''a.tar.gz''" by (simp add: Ext_def)
  have h3: "''a.tar'' = TrimSuffix ''a.tar.gz'' ''.gz''" by (simp add: TrimSuffix_def suffix_def)
  have t: "\<not> IsNotExist (Stat ?fs ''a.tar.gz'')" by (simp add: IsNotExist_Stat)
  have f: "IsNotExist (Stat ?fs (''a.tar'' @ ''_'' @ itoa 2 @ ''.gz''))"
    by (simp add: IsNotExist_Stat itoa.simps digit_def NAME_MAX_def)
  have b: "\<forall>j. 1 \<le> j \<and> j < 2 \<longrightarrow> \<not> IsNotExist (Stat ?fs (''a.tar'' @ ''_'' @ itoa j @ ''.gz''))"
  proof (intro allI impI)
    fix j :: nat assume "1 \<le> j \<and> j < 2"
    then have "j = 1" by arith
    then show "\<not> IsNotExist (Stat ?fs (''a.tar'' @ ''_'' @ itoa j @ ''.gz''))"
      by (simp add: IsNotExist_Stat itoa.simps digit_def)
  qed
  have one: "(1::nat) \<le> 2" and small: "(2::nat) < 2 ^ 63" by simp_all
  from getUniqueFilename_resolves [OF h1 h2 h3, where stat = "Stat ?fs" and i = 2] t f b one small
  have v: "getUniqueFilename (Stat ?fs) ''a.tar.gz'' = Some (''a.tar'' @ ''_'' @ itoa 2 @ ''.gz'')"
    by blast
  have v': "getUniqueFilename (Stat ?fs) ''a.tar.gz'' = Some ''a.tar_2.gz''"
    using v by (simp add: itoa.simps digit_def)
  have n1: "[CHR 0x00] = sanitizeFilename [CHR 0x00]" by (simp add: sanitize_eval)
  have n2: "[] = Ext [CHR 0x00]" by (simp add: Ext_def)
  have n3: "[CHR 0x00] = TrimSuffix [CHR 0x00] []" by (simp add: TrimSuffix_def)
  have nt: "\<not> IsNotExist (Stat Map.empty [CHR 0x00])" by (simp add: IsNotExist_Stat)
  have nb: "\<forall>j :: 64 word.
      \<not> IsNotExist (Stat Map.empty ([CHR 0x00] @ ''_'' @ fmt_d (sint j) @ []))"
    by (simp add: IsNotExist_Stat)
  from getUniqueFilename_resolves [OF n1 n2 n3, where stat = "Stat Map.empty"] nt nb
  have n: "getUniqueFilename (Stat Map.empty) [CHR 0x00] = None" by blast
  from h1 h2 h3 t f v' n1 nt n show ?thesis by blast
qed

text \<open>
  Claim C9 says that the probe loop ends on every finite directory. It has no exit when
  the sanitized name holds a NUL byte, and none when the sanitized name is not reported
  missing and is at most one byte short of \<open>NAME_MAX\<close>: every probe name is then refused
  by \<open>os.Stat\<close>, whatever the entries of the directory are. The second half of the claim
  holds: a name that is returned is one that \<open>os.Stat\<close> has reported missing.
\<close>

theorem getUniqueFilename_no_exit:
  "(CHR 0x00 \<in> set (sanitizeFilename filename) \<or>
    NAME_MAX < length (sanitizeFilename filename) + 2 \<and>
    \<not> IsNotExist (Stat fs (sanitizeFilename filename)) \<longrightarrow>
      getUniqueFilename (Stat fs) filename = None) \<and>
   (getUniqueFilename stat filename = Some name \<longrightarrow> IsNotExist (stat name))"
  using getUniqueFilename_hangs [of filename fs] getUniqueFilename_Some [of stat filename name]
  by blast

theorem getUniqueFilename_no_exit_witness:
  "finite (dom [replicate 255 (CHR ''a'') \<mapsto> ''first'']) \<and>
   sanitizeFilename (replicate 255 (CHR ''a'')) = replicate 255 (CHR ''a'') \<and>
   NAME_MAX < length (replicate 255 (CHR ''a'')) + 2 \<and>
   \<not> IsNotExist (Stat [replicate 255 (CHR ''a'') \<mapsto> ''first''] (replicate 255 (CHR ''a''))) \<and>
   getUniqueFilename (Stat [replicate 255 (CHR ''a'') \<mapsto> ''first'']) (replicate 255 (CHR ''a''))
     = None \<and>
   finite (dom (Map.empty :: string \<rightharpoonup> string)) \<and>
   getUniqueFilename (Stat Map.empty) (replicate 256 (CHR ''a'')) = None"
proof -
  let ?a = "replicate 255 (CHR ''a'')"
  let ?b = "replicate 256 (CHR ''a'')"
  let ?fs = "[?a \<mapsto> ''first'']"
  have s: "sanitizeFilename ?a = ?a" by (simp add: sanitizeFilename_letters)
  have s': "sanitizeFilename ?b = ?b" by (simp add: sanitizeFilename_letters)
  have l: "NAME_MAX < length ?a + 2" by (simp add: NAME_MAX_def)
  have t: "\<not> IsNotExist (Stat ?fs ?a)" by (simp add: IsNotExist_Stat)
  have h: "CHR 0x00 \<in> set (sanitizeFilename ?a) \<or>
      NAME_MAX < length (sanitizeFilename ?a) + 2 \<and> \<not> IsNotExist (Stat ?fs (sanitizeFilename ?a))"
    using l t unfolding s by blast
  have h': "CHR 0x00 \<in> set (sanitizeFilename ?b) \<or>
      NAME_MAX < length (sanitizeFilename ?b) + 2 \<and>
      \<not> IsNotExist (Stat Map.empty (sanitizeFilename ?b))"
    unfolding s' by (simp add: NAME_MAX_def IsNotExist_Stat)
  from getUniqueFilename_no_exit [of ?a ?fs] h
  have v: "getUniqueFilename (Stat ?fs) ?a = None" by blast
  from getUniqueFilename_no_exit [of ?b Map.empty] h'
  have v': "getUniqueFilename (Stat Map.empty) ?b = None" by blast
  have "finite (dom ?fs)" and "finite (dom (Map.empty :: string \<rightharpoonup> string))" by simp_all
  with s l t v v' show ?thesis by blast
qed

section \<open>Claims about handleCompletedUploads\<close>

text \<open>
  Claim C3 says that the metadata record of an upload is deleted once its file has been
  renamed. The loop body has no such step. When the rename succeeds, the bytes of the
  upload move from the entry named by the upload ID to the resolved final name, and the
  record \<open>id.info\<close> is still in the directory, unchanged.
\<close>

theorem handleEvent_renamed_keeps_info:
  assumes "index (MetaData (Upload event)) ''filename'' \<noteq> []"
    and "getUniqueFilename (Stat (files w)) (index (MetaData (Upload event)) ''filename'')
           = Some finalFilename"
    and "Stat (files w) (ID (Upload event)) = None"
    and "files w (ID (Upload event)) = Some content"
    and "files w (infoName (ID (Upload event))) = Some record"
  shows "\<exists>w'. handleEvent False w event = Some w' \<and>
      files w' finalFilename = Some content \<and>
      files w' (ID (Upload event)) = None \<and>
      files w' (infoName (ID (Upload event))) = Some record"
proof -
  let ?fn = "index (MetaData (Upload event)) ''filename''"
  let ?uid = "ID (Upload event)"
  from assms(2) have "IsNotExist (Stat (files w) finalFilename)" by (rule getUniqueFilename_Some)
  then have free: "files w finalFilename = None" by (simp add: IsNotExist_Stat)
  with assms(4,5) have ne: "finalFilename \<noteq> ?uid" "finalFilename \<noteq> infoName ?uid" by auto
  have ne2: "infoName ?uid \<noteq> ?uid" by (simp add: infoName_def)
  let ?fs = "((files w)(?uid := None))(finalFilename \<mapsto> content)"
  have "handleEvent False w event =
      Some (slog (slog w Info ''Upload finished''
                [(''upload_id'', Str ?uid), (''filename'', Str ?fn)]\<lparr>files := ?fs\<rparr>)
         Info ''File renamed successfully''
         [(''from'', Str ?uid), (''original_filename'', Str ?fn),
          (''final_filename'', Str finalFilename)])"
    using assms(1,2,3,4) by (simp add: handleEvent_def Let_def Rename_def)
  moreover have "?fs finalFilename = Some content" by simp
  moreover have "?fs ?uid = None" using ne by simp
  moreover have "?fs (infoName ?uid) = Some record" using ne ne2 assms(5) by simp
  ultimately show ?thesis by simp
qed

theorem handleEvent_renamed_keeps_info_witness:
  "\<exists>w'. handleEvent False
      \<lparr>files = [''X'' \<mapsto> ''0123456789'', ''X.info'' \<mapsto> ''{ID:X}''], logged = []\<rparr>
      \<lparr>Upload = \<lparr>ID = ''X'', MetaData = [''filename'' \<mapsto> ''a.txt'']\<rparr>\<rparr> = Some w' \<and>
    files w' ''a.txt'' = Some ''0123456789'' \<and>
    files w' ''X'' = None \<and>
    files w' ''X.info'' = Some ''{ID:X}''"
proof -
  let ?w = "\<lparr>files = [''X'' \<mapsto> ''0123456789'', ''X.info'' \<mapsto> ''{ID:X}''], logged = []\<rparr>"
  let ?e = "\<lparr>Upload = \<lparr>ID = ''X'', MetaData = [''filename'' \<mapsto> ''a.txt'']\<rparr>\<rparr>"
  have h1: "index (MetaData (Upload ?e)) ''filename'' \<noteq> []" by (simp add: index_def)
  have h2: "getUniqueFilename (Stat (files ?w)) (index (MetaData (Upload ?e)) ''filename'')
      = Some ''a.txt''"
    by (simp add: index_def sanitize_eval unique_eval)
  have h3: "Stat (files ?w) (ID (Upload ?e)) = None" by (simp add: Stat_def NAME_MAX_def)
  have h4: "files ?w (ID (Upload ?e)) = Some ''0123456789''" by simp
  have h5: "files ?w (infoName (ID (Upload ?e))) = Some ''{ID:X}''" by (simp add: infoName_def)
  from handleEvent_renamed_keeps_info [OF h1 h2 h3 h4 h5]
  show ?thesis by (auto simp: infoName_def)
qed

text \<open>
  Claim C4 says that every failed finalization is logged, leaves the state intact and is
  followed by the next event. That is so once the name is resolved: when the entry named
  by the upload ID is missing or the rename returns an error, the iteration ends with the
  directory unchanged and one more log entry, a warning or an error, and the loop goes on.
  But \<open>getUniqueFilename\<close> is called before the source entry is looked at: when its probe
  loop has no exit, the failure is never logged and the loop never reaches the next event.
\<close>

theorem handleEvent_failure_keeps_state:
  assumes "index (MetaData (Upload event)) ''filename'' \<noteq> []"
  shows "(getUniqueFilename (Stat (files w)) (index (MetaData (Upload event)) ''filename'')
            = Some finalFilename \<and>
          (Stat (files w) (ID (Upload event)) \<noteq> None \<or>
           (\<exists>err. Rename fault (files w) (ID (Upload event)) finalFilename = Inl err)) \<longrightarrow>
          (\<exists>w' lv msg attrs. handleEvent fault w event = Some w' \<and>
             files w' = files w \<and>
             logged w' = logged w @
               [(Info, ''Upload finished'',
                 [(''upload_id'', Str (ID (Upload event))),
                  (''filename'', Str (index (MetaData (Upload event)) ''filename''))]),
                (lv, msg, attrs)] \<and>
             (lv = Warn \<or> lv = Error) \<and>
             handleCompletedUploads w ((fault, event) # rest) = handleCompletedUploads w' rest)) \<and>
         (getUniqueFilename (Stat (files w)) (index (MetaData (Upload event)) ''filename'') = None
            \<longrightarrow>
          handleEvent fault w event = None \<and>
          handleCompletedUploads w ((fault, event) # rest) = None)"
proof (intro conjI impI)
  assume h: "getUniqueFilename (Stat (files w)) (index (MetaData (Upload event)) ''filename'')
            = Some finalFilename \<and>
          (Stat (files w) (ID (Upload event)) \<noteq> None \<or>
           (\<exists>err. Rename fault (files w) (ID (Upload event)) finalFilename = Inl err))"
  show "\<exists>w' lv msg attrs. handleEvent fault w event = Some w' \<and>
             files w' = files w \<and>
             logged w' = logged w @
               [(Info, ''Upload finished'',
                 [(''upload_id'', Str (ID (Upload event))),
                  (''filename'', Str (index (MetaData (Upload event)) ''filename''))]),
                (lv, msg, attrs)] \<and>
             (lv = Warn \<or> lv = Error) \<and>
             handleCompletedUploads w ((fault, event) # rest) = handleCompletedUploads w' rest"
  proof (cases "Stat (files w) (ID (Upload event)) \<noteq> None")
    case True
    with assms h show ?thesis by (simp add: handleEvent_def Let_def)
  next
    case False
    with h obtain err where
      "Rename fault (files w) (ID (Upload event)) finalFilename = Inl err" by auto
    with False assms h show ?thesis by (simp add: handleEvent_def Let_def)
  qed
next
  assume "getUniqueFilename (Stat (files w)) (index (MetaData (Upload event)) ''filename'') = None"
  with assms show "handleEvent fault w event = None" by (simp add: handleEvent_def Let_def)
  then show "handleCompletedUploads w ((fault, event) # rest) = None" by simp
qed

theorem handleEvent_failure_keeps_state_witness:
  "(\<exists>w'. handleEvent False
       \<lparr>files = [''X.info'' \<mapsto> ''{ID:X}''], logged = []\<rparr>
       \<lparr>Upload = \<lparr>ID = ''X'', MetaData = [''filename'' \<mapsto> ''a.txt'']\<rparr>\<rparr> = Some w' \<and>
     files w' = [''X.info'' \<mapsto> ''{ID:X}''] \<and> length (logged w') = 2) \<and>
   (\<exists>w'. handleEvent True
       \<lparr>files = [''X'' \<mapsto> ''0123456789'', ''X.info'' \<mapsto> ''{ID:X}''], logged = []\<rparr>
       \<lparr>Upload = \<lparr>ID = ''X'', MetaData = [''filename'' \<mapsto> ''a.txt'']\<rparr>\<rparr> = Some w' \<and>
     files w' = [''X'' \<mapsto> ''0123456789'', ''X.info'' \<mapsto> ''{ID:X}''] \<and>
     length (logged w') = 2) \<and>
   Stat [''X.info'' \<mapsto> ''{ID:X}''] ''X'' = Some ENOENT \<and>
   handleEvent False
       \<lparr>files = [''X.info'' \<mapsto> ''{ID:X}''], logged = []\<rparr>
       \<lparr>Upload = \<lparr>ID = ''X'',
          MetaData = [''filename'' \<mapsto> replicate 256 (CHR ''a'')]\<rparr>\<rparr> = None \<and>
   handleCompletedUploads
       \<lparr>files = [''X.info'' \<mapsto> ''{ID:X}''], logged = []\<rparr>
       [(False, \<lparr>Upload = \<lparr>ID = ''X'',
          MetaData = [''filename'' \<mapsto> replicate 256 (CHR ''a'')]\<rparr>\<rparr>),
        (False, \<lparr>Upload = \<lparr>ID = ''Y'', MetaData = [''filename'' \<mapsto> ''b.txt'']\<rparr>\<rparr>)] = None"
proof -
  let ?e = "\<lparr>Upload = \<lparr>ID = ''X'', MetaData = [''filename'' \<mapsto> ''a.txt'']\<rparr>\<rparr>"
  let ?long = "\<lparr>Upload = \<lparr>ID = ''X'',
          MetaData = [''filename'' \<mapsto> replicate 256 (CHR ''a'')]\<rparr>\<rparr>"
  let ?next = "\<lparr>Upload = \<lparr>ID = ''Y'', MetaData = [''filename'' \<mapsto> ''b.txt'']\<rparr>\<rparr>"
  let ?w1 = "\<lparr>files = [''X.info'' \<mapsto> ''{ID:X}''], logged = []\<rparr>"
  let ?w2 = "\<lparr>files = [''X'' \<mapsto> ''0123456789'', ''X.info'' \<mapsto> ''{ID:X}''], logged = []\<rparr>"
  have n: "index (MetaData (Upload ?e)) ''filename'' \<noteq> []" by (simp add: index_def)
  have g1: "getUniqueFilename (Stat (files ?w1)) (index (MetaData (Upload ?e)) ''filename'')
      = Some ''a.txt''"
    by (simp add: index_def sanitize_eval unique_eval)
  have g2: "getUniqueFilename (Stat (files ?w2)) (index (MetaData (Upload ?e)) ''filename'')
      = Some ''a.txt''"
    by (simp add: index_def sanitize_eval unique_eval)
  have missing: "Stat [''X.info'' \<mapsto> ''{ID:X}''] ''X'' = Some ENOENT"
    by (simp add: Stat_def NAME_MAX_def)
  then have f1: "Stat (files ?w1) (ID (Upload ?e)) \<noteq> None \<or>
      (\<exists>err. Rename False (files ?w1) (ID (Upload ?e)) ''a.txt'' = Inl err)"
    by simp
  have f2: "Stat (files ?w2) (ID (Upload ?e)) \<noteq> None \<or>
      (\<exists>err. Rename True (files ?w2) (ID (Upload ?e)) ''a.txt'' = Inl err)"
    by (simp add: Rename_def)
  from handleEvent_failure_keeps_state
    [OF n, where w = ?w1 and fault = False and finalFilename = "''a.txt''" and rest = "[]"] g1 f1
  have a: "\<exists>w'. handleEvent False ?w1 ?e = Some w' \<and>
     files w' = [''X.info'' \<mapsto> ''{ID:X}''] \<and> length (logged w') = 2"
    by auto
  from handleEvent_failure_keeps_state
    [OF n, where w = ?w2 and fault = True and finalFilename = "''a.txt''" and rest = "[]"] g2 f2
  have b: "\<exists>w'. handleEvent True ?w2 ?e = Some w' \<and>
     files w' = [''X'' \<mapsto> ''0123456789'', ''X.info'' \<mapsto> ''{ID:X}''] \<and>
     length (logged w') = 2"
    by auto
  have nl: "index (MetaData (Upload ?long)) ''filename'' \<noteq> []" by (simp add: index_def)
  have "getUniqueFilename (Stat (files ?w1)) (replicate 256 (CHR ''a'')) = None"
    by (rule getUniqueFilename_hangs)
      (simp add: sanitizeFilename_letters IsNotExist_Stat NAME_MAX_def)
  then have gl: "getUniqueFilename (Stat (files ?w1)) (index (MetaData (Upload ?long)) ''filename'')
      = None"
    by (simp add: index_def)
  from handleEvent_failure_keeps_state
    [OF nl, where w = ?w1 and fault = False and rest = "[(False, ?next)]"] gl
  have c: "handleEvent False ?w1 ?long = None \<and>
      handleCompletedUploads ?w1 [(False, ?long), (False, ?next)] = None"
    by blast
  from a b missing c show ?thesis by blast
qed

text \<open>
  Claim C5. For an event whose metadata has no \<open>filename\<close> entry the iteration renames
  nothing: the directory is unchanged, the log gains the entry of the finished upload and
  a warning, and the loop goes on with the next event.
\<close>

theorem handleEvent_no_filename:
  assumes "MetaData (Upload event) ''filename'' = None"
  shows "\<exists>w'. handleEvent fault w event = Some w' \<and>
      files w' = files w \<and>
      logged w' = logged w @
        [(Info, ''Upload finished'',
          [(''upload_id'', Str (ID (Upload event))), (''filename'', Str [])]),
         (Warn, ''No filename in metadata, keeping file with upload ID'',
          [(''upload_id'', Str (ID (Upload event)))])] \<and>
      handleCompletedUploads w ((fault, event) # rest) = handleCompletedUploads w' rest"
  using assms by (simp add: handleEvent_def index_def Let_def)

theorem handleEvent_no_filename_witness:
  "\<exists>w'. handleEvent False
      \<lparr>files = [''X'' \<mapsto> ''0123456789'', ''X.info'' \<mapsto> ''{ID:X}''], logged = []\<rparr>
      \<lparr>Upload = \<lparr>ID = ''X'', MetaData = [''filetype'' \<mapsto> ''text/plain'']\<rparr>\<rparr> = Some w' \<and>
    files w' = [''X'' \<mapsto> ''0123456789'', ''X.info'' \<mapsto> ''{ID:X}''] \<and>
    map fst (logged w') = [Info, Warn]"
proof -
  let ?e = "\<lparr>Upload = \<lparr>ID = ''X'', MetaData = [''filetype'' \<mapsto> ''text/plain'']\<rparr>\<rparr>"
  let ?w = "\<lparr>files = [''X'' \<mapsto> ''0123456789'', ''X.info'' \<mapsto> ''{ID:X}''], logged = []\<rparr>"
  have h: "MetaData (Upload ?e) ''filename'' = None" by simp
  from handleEvent_no_filename [OF h, where fault = False and w = ?w and rest = "[]"]
  show ?thesis by auto
qed

text \<open>
  Claim C10. An event whose metadata maps \<open>filename\<close> to the empty string is handled
  exactly as the same event without that entry: the directory is unchanged and the same
  two log entries are written. The iteration returns whatever the directory is, also an
  infinite one on which the probe loop could not end, and whatever the fault flag of the
  rename is: neither \<open>getUniqueFilename\<close> nor \<open>Rename\<close> decides its result.
\<close>

theorem handleEvent_empty_filename:
  assumes "MetaData (Upload event) ''filename'' = Some []"
  shows "handleEvent fault w event =
      handleEvent fault w
        (event\<lparr>Upload := (Upload event)\<lparr>MetaData := (MetaData (Upload event))(''filename'' := None)\<rparr>\<rparr>) \<and>
    (\<exists>w'. handleEvent fault w event = Some w' \<and> files w' = files w \<and>
       map fst (logged w') = map fst (logged w) @ [Info, Warn])"
  using assms by (simp add: handleEvent_def index_def Let_def)

theorem handleEvent_empty_filename_witness:
  "handleEvent False
      \<lparr>files = [''X'' \<mapsto> ''0123456789'', ''X.info'' \<mapsto> ''{ID:X}''], logged = []\<rparr>
      \<lparr>Upload = \<lparr>ID = ''X'', MetaData = [''filename'' \<mapsto> []]\<rparr>\<rparr> =
   handleEvent False
      \<lparr>files = [''X'' \<mapsto> ''0123456789'', ''X.info'' \<mapsto> ''{ID:X}''], logged = []\<rparr>
      \<lparr>Upload = \<lparr>ID = ''X'', MetaData = Map.empty\<rparr>\<rparr> \<and>
   (\<exists>w'. handleEvent False
      \<lparr>files = [''X'' \<mapsto> ''0123456789'', ''X.info'' \<mapsto> ''{ID:X}''], logged = []\<rparr>
      \<lparr>Upload = \<lparr>ID = ''X'', MetaData = [''filename'' \<mapsto> []]\<rparr>\<rparr> = Some w' \<and>
     files w' = [''X'' \<mapsto> ''0123456789'', ''X.info'' \<mapsto> ''{ID:X}''])"
proof -
  let ?e = "\<lparr>Upload = \<lparr>ID = ''X'', MetaData = [''filename'' \<mapsto> []]\<rparr>\<rparr>"
  let ?w = "\<lparr>files = [''X'' \<mapsto> ''0123456789'', ''X.info'' \<mapsto> ''{ID:X}''], logged = []\<rparr>"
  have h: "MetaData (Upload ?e) ''filename'' = Some []" by simp
  let ?d = "\<lparr>Upload = \<lparr>ID = ''X'', MetaData = Map.empty\<rparr>\<rparr>"
  note t = handleEvent_empty_filename [OF h, where fault = False and w = ?w]
  from t have same: "handleEvent False ?w ?e = handleEvent False ?w ?d"
    by simp
  from t obtain w' where r: "handleEvent False ?w ?e = Some w'" and f: "files w' = files ?w"
    by blast
  from f have "files w' = [''X'' \<mapsto> ''0123456789'', ''X.info'' \<mapsto> ''{ID:X}'']" by simp
  with same r show ?thesis by blast
qed

section \<open>Claims about the upload state machine\<close>

text \<open>
  Claim C6, on the state machine modelled from the specification. An \<open>Append\<close> whose
  expected offset differs from the recorded offset of the upload, behind it or ahead of
  it, fails with \<open>Conflict\<close> and returns the state it was given.
\<close>

theorem Append_offset_mismatch:
  assumes "uploads e uid = Some u" and "expectedOffset \<noteq> offset u"
  shows "Append e uid expectedOffset bytes = (Inl Conflict, e)"
  using assms by (simp add: Append_def)

theorem Append_offset_mismatch_witness:
  "Append \<lparr>uploads = [''X'' \<mapsto> \<lparr>declaredLength = Some 10, offset = 5,
        metadata = [''filename'' \<mapsto> ''a.txt''], state = InProgress, stored = ''01234''\<rparr>],
      completions = []\<rparr> ''X'' 0 ''01234'' =
     (Inl Conflict, \<lparr>uploads = [''X'' \<mapsto> \<lparr>declaredLength = Some 10, offset = 5,
        metadata = [''filename'' \<mapsto> ''a.txt''], state = InProgress, stored = ''01234''\<rparr>],
      completions = []\<rparr>) \<and>
   Append \<lparr>uploads = [''X'' \<mapsto> \<lparr>declaredLength = Some 10, offset = 5,
        metadata = [''filename'' \<mapsto> ''a.txt''], state = InProgress, stored = ''01234''\<rparr>],
      completions = []\<rparr> ''X'' 7 ''789'' =
     (Inl Conflict, \<lparr>uploads = [''X'' \<mapsto> \<lparr>declaredLength = Some 10, offset = 5,
        metadata = [''filename'' \<mapsto> ''a.txt''], state = InProgress, stored = ''01234''\<rparr>],
      completions = []\<rparr>)"
proof -
  let ?u = "\<lparr>declaredLength = Some 10, offset = 5,
        metadata = [''filename'' \<mapsto> ''a.txt''], state = InProgress, stored = ''01234''\<rparr>"
  let ?e = "\<lparr>uploads = [''X'' \<mapsto> ?u], completions = []\<rparr>"
  have h: "uploads ?e ''X'' = Some ?u" by simp
  have b: "(0::nat) \<noteq> offset ?u" and a: "(7::nat) \<noteq> offset ?u" by simp_all
  from Append_offset_mismatch [OF h b, of "''01234''"]
       Append_offset_mismatch [OF h a, of "''789''"]
  show ?thesis by simp
qed

end
